theory Spec2Isabelle
  imports Complex_Main
begin

section \<open>Arithmetic of the source\<close>

text \<open>
  The fan controller is Python. Its temperatures are floats (\<open>Temperature / 1000.0\<close>), its
  fan speeds and bounds are unbounded integers. A finite float is a rational number, and
  the model takes a temperature as a \<^typ>\<open>real\<close> and computes with it exactly: the
  comparisons of the source are the comparisons of the model, and its float arithmetic is
  taken without rounding error. Integers are \<^typ>\<open>int\<close>.

  Python rounds the result of each float operation to the nearest double; the model does
  not. In every run evaluated in this theory the two give the same values. In general
  they can differ in the last place, and where the exact result is an integer or lies
  within a rounding error of one, a truncation can then differ by one (Python's
  \<open>90 * 0.7\<close> lies just below 63). Infinities and NaN are not modelled.

  \<open>int(x)\<close> on a float truncates toward zero.
\<close>

definition py_int :: "real \<Rightarrow> int" where
  "py_int x = (if x < 0 then \<lceil>x\<rceil> else \<lfloor>x\<rfloor>)"

datatype py_error = IndexError | ZeroDivisionError

section \<open>FanCurve\<close>

text \<open>
  \<open>class FanCurve\<close>: a name and a list of (temperature, fan speed) points.
\<close>

record FanCurve =
  name :: string
  points :: "(real \<times> real) list"

definition default_points :: "(real \<times> real) list" where
  "default_points = [(30, 30), (50, 40), (70, 60), (80, 80), (90, 100)]"

text \<open>
  \<open>__init__(self, name="Default", points=None)\<close>, lines 161 to 165:
  \<open>self.points = points or [...]\<close> takes the default list for \<open>None\<close> and for the empty
  list (both are falsy), and \<open>self.points.sort(key=lambda p: p[0])\<close> is a stable sort on
  the temperature. There is no other statement: nothing is validated, nothing is raised.
\<close>

definition FanCurve_init :: "string \<Rightarrow> (real \<times> real) list option \<Rightarrow> FanCurve" where
  "FanCurve_init nm pts =
     \<lparr>name = nm,
      points = sort_key fst
        (case pts of None \<Rightarrow> default_points | Some [] \<Rightarrow> default_points | Some (p # ps) \<Rightarrow> p # ps)\<rparr>"

text \<open>
  The loop of \<open>get_fan_speed\<close> over \<open>range(len(self.points) - 1)\<close>: the first pair of
  neighbours with \<open>t1 <= temperature <= t2\<close> decides; the division raises when
  \<open>t2 - t1\<close> is zero; when the loop ends the fallback is 50.
\<close>

fun interpolate :: "(real \<times> real) list \<Rightarrow> real \<Rightarrow> py_error + real" where
  "interpolate ((t1, f1) # (t2, f2) # ps) temperature =
     (if t1 \<le> temperature \<and> temperature \<le> t2 then
        (if t2 - t1 = 0 then Inl ZeroDivisionError
         else Inr (f1 + (temperature - t1) / (t2 - t1) * (f2 - f1)))
      else interpolate ((t2, f2) # ps) temperature)"
| "interpolate [p] temperature = Inr 50"
| "interpolate [] temperature = Inr 50"

text \<open>
  The method \<open>FanCurve.get_fan_speed(self, temperature)\<close>, lines 167 to 191 (not the
  module's function of the same name, which reads the hardware). \<open>None\<close> gives \<open>None\<close>;
  \<open>self.points[0]\<close> on an empty list raises IndexError.
\<close>

definition get_fan_speed :: "FanCurve \<Rightarrow> real option \<Rightarrow> py_error + real option" where
  "get_fan_speed self temperature =
     (case temperature of
        None \<Rightarrow> Inr None
      | Some t \<Rightarrow>
          (case points self of
             [] \<Rightarrow> Inl IndexError
           | p # ps \<Rightarrow>
               if t \<le> fst p then Inr (Some (snd p))
               else if t \<ge> fst (last (p # ps)) then Inr (Some (snd (last (p # ps))))
               else (case interpolate (p # ps) t of
                       Inl e \<Rightarrow> Inl e
                     | Inr f \<Rightarrow> Inr (Some f))))"

section \<open>The adaptive temperature controller\<close>

text \<open>
  \<open>temperature_control(adl, target_temp, min_fan=30, max_fan=100)\<close> returns a closure
  over its arguments and four \<open>nonlocal\<close> variables. The record holds what the closure
  captures; \<open>adl\<close> is never used by the closure and is left out.
\<close>

record controller =
  target_temp :: real
  min_fan :: int
  max_fan :: int
  last_fan_speed :: int
  temp_history :: "real list"
  aggressive_mode :: bool
  stable_counter :: nat

definition history_max_size :: nat where
  "history_max_size = 10"

definition stable_threshold :: real where
  "stable_threshold = 2"

definition stable_required :: nat where
  "stable_required = 6"

definition temperature_control :: "real \<Rightarrow> int \<Rightarrow> int \<Rightarrow> controller" where
  "temperature_control target mn mx =
     \<lparr>target_temp = target, min_fan = mn, max_fan = mx, last_fan_speed = mn,
      temp_history = [], aggressive_mode = True, stable_counter = 0\<rparr>"

text \<open>
  Lines 243 to 245: \<open>temp_history.append(current_temp)\<close>, then \<open>pop(0)\<close> when the list
  is longer than \<open>history_max_size\<close>.
\<close>

definition update_history :: "controller \<Rightarrow> real \<Rightarrow> controller" where
  "update_history c current_temp =
     (let h = temp_history c @ [current_temp]
      in c\<lparr>temp_history := (if length h > history_max_size then tl h else h)\<rparr>)"

text \<open>
  Lines 248 to 261, on the history already updated. \<open>max\<close> and \<open>min\<close> of the list are
  read under the test \<open>len(temp_history) >= 4\<close> only.
\<close>

definition update_mode :: "controller \<Rightarrow> real \<Rightarrow> controller" where
  "update_mode c current_temp =
     (if length (temp_history c) \<ge> 4 then
        (let temp_variation = Max (set (temp_history c)) - Min (set (temp_history c)) in
         if \<bar>current_temp - target_temp c\<bar> < 3 \<and> temp_variation < stable_threshold then
           (let c1 = c\<lparr>stable_counter := stable_counter c + 1\<rparr> in
            if stable_counter c1 \<ge> stable_required \<and> aggressive_mode c1
            then c1\<lparr>aggressive_mode := False\<rparr> else c1)
         else
           (let c1 = c\<lparr>stable_counter := 0\<rparr> in
            if \<not> aggressive_mode c1 \<and> (\<bar>current_temp - target_temp c\<bar> > 5 \<or> temp_variation > 4)
            then c1\<lparr>aggressive_mode := True\<rparr> else c1))
      else c)"

text \<open>Lines 267 to 276: the parameters of the two modes.\<close>

definition over_target_gain :: "controller \<Rightarrow> real" where
  "over_target_gain c = (if aggressive_mode c then 5 / 2 else 3 / 2)"

definition under_target_gain :: "controller \<Rightarrow> real" where
  "under_target_gain c = (if aggressive_mode c then 3 / 2 else 4 / 5)"

definition min_adjustment :: "controller \<Rightarrow> int" where
  "min_adjustment c = (if aggressive_mode c then 3 else 1)"

text \<open>
  Lines 264 and 279 to 298: the candidate speed \<open>new_fan\<close>. \<open>temp_history[-1]\<close> and
  \<open>temp_history[-3]\<close> are read under the test \<open>len(temp_history) >= 3\<close> only.
\<close>

definition new_fan :: "controller \<Rightarrow> real \<Rightarrow> int" where
  "new_fan c current_temp =
     (let temp_diff = current_temp - target_temp c; h = temp_history c in
      if temp_diff > 0 then
        (let adjustment = max (min_adjustment c) (py_int (temp_diff * over_target_gain c));
             adjustment = (if length h \<ge> 3 \<and> h ! (length h - 1) > h ! (length h - 3)
                           then py_int (real_of_int adjustment * (3 / 2)) else adjustment)
         in min (max_fan c) (last_fan_speed c + adjustment))
      else
        (let adjustment = max (min_adjustment c) (py_int (\<bar>temp_diff\<bar> * under_target_gain c));
             adjustment = (if aggressive_mode c then py_int (real_of_int adjustment * (7 / 10))
                           else py_int (real_of_int adjustment * (1 / 2)))
         in max (min_fan c) (last_fan_speed c - adjustment)))"

text \<open>
  \<open>get_fan_speed_for_temp(current_temp)\<close>: the returned speed and the closure's state
  after the call.
\<close>

definition get_fan_speed_for_temp :: "controller \<Rightarrow> real option \<Rightarrow> int \<times> controller" where
  "get_fan_speed_for_temp c current_temp =
     (case current_temp of
        None \<Rightarrow> (last_fan_speed c, c)
      | Some t \<Rightarrow>
          (let c1 = update_mode (update_history c t) t;
               nf = new_fan c1 t;
               c2 = (if \<bar>nf - last_fan_speed c1\<bar> \<ge> 2 \<or> \<bar>t - target_temp c1\<bar> > 3
                     then c1\<lparr>last_fan_speed := nf\<rparr> else c1)
           in (last_fan_speed c2, c2)))"

text \<open>
  A control session: the caller's loop calls the closure once per sample. \<open>feed\<close> is the
  state after the samples, \<open>outputs\<close> the speeds returned.
\<close>

fun feed :: "controller \<Rightarrow> real option list \<Rightarrow> controller" where
  "feed c [] = c"
| "feed c (x # xs) = feed (snd (get_fan_speed_for_temp c x)) xs"

fun outputs :: "controller \<Rightarrow> real option list \<Rightarrow> int list" where
  "outputs c [] = []"
| "outputs c (x # xs) =
     fst (get_fan_speed_for_temp c x) # outputs (snd (get_fan_speed_for_temp c x)) xs"

text \<open>The samples of a session that were available, in order: they are what reaches the history.\<close>

fun available :: "real option list \<Rightarrow> real list" where
  "available [] = []"
| "available (None # xs) = available xs"
| "available (Some t # xs) = t # available xs"

section \<open>The specification's wording, for comparison\<close>





section \<open>Frame lemmas\<close>

lemma update_history_frame [simp]:
  "target_temp (update_history c t) = target_temp c"
  "min_fan (update_history c t) = min_fan c"
  "max_fan (update_history c t) = max_fan c"
  "last_fan_speed (update_history c t) = last_fan_speed c"
  "aggressive_mode (update_history c t) = aggressive_mode c"
  "stable_counter (update_history c t) = stable_counter c"
  by (simp_all add: update_history_def Let_def)

lemma update_mode_frame [simp]:
  "target_temp (update_mode c t) = target_temp c"
  "min_fan (update_mode c t) = min_fan c"
  "max_fan (update_mode c t) = max_fan c"
  "last_fan_speed (update_mode c t) = last_fan_speed c"
  "temp_history (update_mode c t) = temp_history c"
  by (simp_all add: update_mode_def Let_def)

lemma step_frame [simp]:
  "target_temp (snd (get_fan_speed_for_temp c x)) = target_temp c"
  "min_fan (snd (get_fan_speed_for_temp c x)) = min_fan c"
  "max_fan (snd (get_fan_speed_for_temp c x)) = max_fan c"
  by (simp_all add: get_fan_speed_for_temp_def Let_def split: option.split)

lemma step_returns_last:
  "fst (get_fan_speed_for_temp c x) = last_fan_speed (snd (get_fan_speed_for_temp c x))"
  by (simp add: get_fan_speed_for_temp_def Let_def split: option.split)

lemma step_Some_fields:
  "temp_history (snd (get_fan_speed_for_temp c (Some t))) = temp_history (update_history c t)"
  "aggressive_mode (snd (get_fan_speed_for_temp c (Some t))) =
     aggressive_mode (update_mode (update_history c t) t)"
  "stable_counter (snd (get_fan_speed_for_temp c (Some t))) =
     stable_counter (update_mode (update_history c t) t)"
  by (simp_all add: get_fan_speed_for_temp_def Let_def)

lemma step_None [simp]: "snd (get_fan_speed_for_temp c None) = c"
  by (simp add: get_fan_speed_for_temp_def)

lemma feed_frame [simp]:
  "target_temp (feed c xs) = target_temp c"
  "min_fan (feed c xs) = min_fan c"
  "max_fan (feed c xs) = max_fan c"
  by (induction xs arbitrary: c) simp_all

lemma feed_append: "feed c (xs @ ys) = feed (feed c xs) ys"
  by (induction xs arbitrary: c) simp_all

lemma outputs_append: "outputs c (xs @ ys) = outputs c xs @ outputs (feed c xs) ys"
  by (induction xs arbitrary: c) simp_all

lemma length_outputs [simp]: "length (outputs c xs) = length xs"
  by (induction xs arbitrary: c) simp_all

section \<open>Truncation\<close>


lemma py_int_ge0: "0 \<le> x \<Longrightarrow> 0 \<le> py_int x"
  by (simp add: py_int_def)

lemma min_adjustment_pos: "1 \<le> min_adjustment c"
  by (simp add: min_adjustment_def)

section \<open>The controller on an unavailable sample\<close>

text \<open>
  C4. Called with an unavailable temperature (\<open>None\<close>), the controller returns the current
  \<open>last_fan_speed\<close> and its state is the state before the call: \<open>last_fan_speed\<close>, the
  temperature history, the mode flag and the stability counter are all unchanged.
\<close>

theorem unavailable_sample_holds:
  "fst (get_fan_speed_for_temp c None) = last_fan_speed c
   \<and> snd (get_fan_speed_for_temp c None) = c
   \<and> last_fan_speed (snd (get_fan_speed_for_temp c None)) = last_fan_speed c
   \<and> temp_history (snd (get_fan_speed_for_temp c None)) = temp_history c
   \<and> aggressive_mode (snd (get_fan_speed_for_temp c None)) = aggressive_mode c
   \<and> stable_counter (snd (get_fan_speed_for_temp c None)) = stable_counter c"
  by (simp add: get_fan_speed_for_temp_def)

section \<open>The update rule\<close>



section \<open>The hysteresis gate\<close>

text \<open>
  C2. On an available sample \<open>t\<close> the candidate is \<open>new_fan\<close>, computed on the state whose
  history and mode have been updated. When \<open>|candidate - last_fan_speed| \<ge> 2\<close> or
  \<open>|t - target_temp| > 3\<close> the candidate is both the new \<open>last_fan_speed\<close> and the value
  returned; otherwise the previous \<open>last_fan_speed\<close> is kept and returned. Between two
  calls of a session this reads: when the second call does not commit, it returns what
  the call before it returned.
\<close>

theorem hysteresis_gate:
  "fst (get_fan_speed_for_temp c (Some t)) =
     (if \<bar>new_fan (update_mode (update_history c t) t) t - last_fan_speed c\<bar> \<ge> 2
         \<or> \<bar>t - target_temp c\<bar> > 3
      then new_fan (update_mode (update_history c t) t) t else last_fan_speed c)
   \<and> last_fan_speed (snd (get_fan_speed_for_temp c (Some t))) =
     (if \<bar>new_fan (update_mode (update_history c t) t) t - last_fan_speed c\<bar> \<ge> 2
         \<or> \<bar>t - target_temp c\<bar> > 3
      then new_fan (update_mode (update_history c t) t) t else last_fan_speed c)
   \<and> fst (get_fan_speed_for_temp (snd (get_fan_speed_for_temp c x)) (Some t)) =
     (if \<bar>new_fan (update_mode (update_history (snd (get_fan_speed_for_temp c x)) t) t) t
           - fst (get_fan_speed_for_temp c x)\<bar> \<ge> 2
         \<or> \<bar>t - target_temp c\<bar> > 3
      then new_fan (update_mode (update_history (snd (get_fan_speed_for_temp c x)) t) t) t
      else fst (get_fan_speed_for_temp c x))"
proof -
  have one: "fst (get_fan_speed_for_temp d (Some t)) =
     (if \<bar>new_fan (update_mode (update_history d t) t) t - last_fan_speed d\<bar> \<ge> 2
         \<or> \<bar>t - target_temp d\<bar> > 3
      then new_fan (update_mode (update_history d t) t) t else last_fan_speed d)"
    and two: "last_fan_speed (snd (get_fan_speed_for_temp d (Some t))) =
     (if \<bar>new_fan (update_mode (update_history d t) t) t - last_fan_speed d\<bar> \<ge> 2
         \<or> \<bar>t - target_temp d\<bar> > 3
      then new_fan (update_mode (update_history d t) t) t else last_fan_speed d)" for d
    by (simp_all add: get_fan_speed_for_temp_def Let_def)
  have three: "fst (get_fan_speed_for_temp (snd (get_fan_speed_for_temp c x)) (Some t)) =
     (if \<bar>new_fan (update_mode (update_history (snd (get_fan_speed_for_temp c x)) t) t) t
           - fst (get_fan_speed_for_temp c x)\<bar> \<ge> 2
         \<or> \<bar>t - target_temp c\<bar> > 3
      then new_fan (update_mode (update_history (snd (get_fan_speed_for_temp c x)) t) t) t
      else fst (get_fan_speed_for_temp c x))"
    unfolding one [of "snd (get_fan_speed_for_temp c x)"] step_returns_last [of c x]
    by (simp only: step_frame)
  show ?thesis by (intro conjI one two three)
qed

section \<open>The commanded speed stays within its bounds\<close>

lemma new_fan_shape:
  "\<exists>a\<ge>0. new_fan c t = min (max_fan c) (last_fan_speed c + a)
         \<or> new_fan c t = max (min_fan c) (last_fan_speed c - a)"
proof -
  let ?h = "temp_history c"
  let ?A = "max (min_adjustment c) (py_int ((t - target_temp c) * over_target_gain c))"
  let ?B = "max (min_adjustment c) (py_int (\<bar>t - target_temp c\<bar> * under_target_gain c))"
  let ?A' = "if length ?h \<ge> 3 \<and> ?h ! (length ?h - 1) > ?h ! (length ?h - 3)
             then py_int (real_of_int ?A * (3 / 2)) else ?A"
  let ?B' = "if aggressive_mode c then py_int (real_of_int ?B * (7 / 10))
             else py_int (real_of_int ?B * (1 / 2))"
  have A: "0 \<le> ?A" and B: "0 \<le> ?B"
    using min_adjustment_pos [of c] by linarith+
  have "0 \<le> py_int (real_of_int ?A * (3 / 2))"
    using A by (intro py_int_ge0) simp
  with A have A': "0 \<le> ?A'" by presburger
  have "0 \<le> py_int (real_of_int ?B * (7 / 10))" "0 \<le> py_int (real_of_int ?B * (1 / 2))"
    using B by (intro py_int_ge0, simp)+
  then have B': "0 \<le> ?B'" by presburger
  have "new_fan c t = (if t - target_temp c > 0 then min (max_fan c) (last_fan_speed c + ?A')
                       else max (min_fan c) (last_fan_speed c - ?B'))"
    unfolding new_fan_def Let_def ..
  with A' B' show ?thesis by (cases "t - target_temp c > 0") metis+
qed

lemma new_fan_bounds:
  assumes "min_fan c \<le> last_fan_speed c" and "last_fan_speed c \<le> max_fan c"
  shows "min_fan c \<le> new_fan c t \<and> new_fan c t \<le> max_fan c"
  using new_fan_shape [of c t] assms by auto

lemma step_inv:
  assumes "min_fan c \<le> last_fan_speed c" and "last_fan_speed c \<le> max_fan c"
  shows "min_fan c \<le> last_fan_speed (snd (get_fan_speed_for_temp c x))
       \<and> last_fan_speed (snd (get_fan_speed_for_temp c x)) \<le> max_fan c"
proof (cases x)
  case None
  with assms show ?thesis by (simp add: get_fan_speed_for_temp_def)
next
  case (Some t)
  have "min_fan c \<le> new_fan (update_mode (update_history c t) t) t
      \<and> new_fan (update_mode (update_history c t) t) t \<le> max_fan c"
    using new_fan_bounds [of "update_mode (update_history c t) t" t] assms by simp
  with assms Some show ?thesis
    by (simp add: get_fan_speed_for_temp_def Let_def)
qed

lemma feed_inv:
  "min_fan c \<le> last_fan_speed c \<Longrightarrow> last_fan_speed c \<le> max_fan c \<Longrightarrow>
   min_fan c \<le> last_fan_speed (feed c xs) \<and> last_fan_speed (feed c xs) \<le> max_fan c"
proof (induction xs arbitrary: c)
  case Nil
  then show ?case by simp
next
  case (Cons x xs)
  from Cons.IH [of "snd (get_fan_speed_for_temp c x)"] step_inv [OF Cons.prems, of x]
  show ?case by simp
qed

lemma outputs_inv:
  "min_fan c \<le> last_fan_speed c \<Longrightarrow> last_fan_speed c \<le> max_fan c \<Longrightarrow>
   \<forall>r \<in> set (outputs c xs). min_fan c \<le> r \<and> r \<le> max_fan c"
proof (induction xs arbitrary: c)
  case Nil
  then show ?case by simp
next
  case (Cons x xs)
  from Cons.IH [of "snd (get_fan_speed_for_temp c x)"] step_inv [OF Cons.prems, of x]
  show ?case by (simp add: step_returns_last)
qed

text \<open>
  C9. A controller constructed with \<open>min_fan \<le> max_fan\<close> starts with \<open>last_fan_speed\<close>
  equal to \<open>min_fan\<close>; after any sequence of calls, with available or unavailable
  samples, \<open>min_fan \<le> last_fan_speed \<le> max_fan\<close>, and every speed returned on the way
  lies in \<open>[min_fan, max_fan]\<close>.
\<close>

theorem last_fan_speed_in_bounds:
  assumes "mn \<le> mx"
  shows "last_fan_speed (temperature_control tg mn mx) = mn
    \<and> mn \<le> last_fan_speed (feed (temperature_control tg mn mx) xs)
    \<and> last_fan_speed (feed (temperature_control tg mn mx) xs) \<le> mx
    \<and> (\<forall>r \<in> set (outputs (temperature_control tg mn mx) xs). mn \<le> r \<and> r \<le> mx)"
proof -
  let ?c = "temperature_control tg mn mx"
  have f: "min_fan ?c = mn" "max_fan ?c = mx" "last_fan_speed ?c = mn"
    by (simp_all add: temperature_control_def)
  from feed_inv [of ?c xs] outputs_inv [of ?c xs] assms show ?thesis
    unfolding f by simp
qed

text \<open>
  The invariant at a session of three calls (80, unavailable, 60) with the default
  bounds; the speeds returned are 55, 55 and 45.
\<close>

theorem last_fan_speed_in_bounds_witness:
  "(30::int) \<le> 100
    \<and> last_fan_speed (temperature_control 70 30 100) = 30
    \<and> 30 \<le> last_fan_speed (feed (temperature_control 70 30 100) [Some 80, None, Some 60])
    \<and> last_fan_speed (feed (temperature_control 70 30 100) [Some 80, None, Some 60]) \<le> 100
    \<and> list_all (\<lambda>r. 30 \<le> r \<and> r \<le> 100)
         (outputs (temperature_control 70 30 100) [Some 80, None, Some 60])
    \<and> outputs (temperature_control 70 30 100) [Some 80, None, Some 60] = [55, 55, 45]"
proof -
  have h: "(30::int) \<le> 100" by simp
  have e: "outputs (temperature_control 70 30 100) [Some 80, None, Some 60] = [55, 55, 45]"
    by code_simp
  from last_fan_speed_in_bounds [OF h, of 70 "[Some 80, None, Some 60]"] h e show ?thesis
    by (simp add: list_all_iff)
qed

section \<open>Mode transitions\<close>

lemma window_step:
  assumes "temp_history c = drop (length ys - 10) ys"
  shows "temp_history (update_history c t) = drop (length (ys @ [t]) - 10) (ys @ [t])"
proof (cases "length ys < 10")
  case True
  with assms show ?thesis
    by (simp add: update_history_def Let_def history_max_size_def)
next
  case False
  then have ne: "drop (length ys - 10) ys \<noteq> []" by simp
  have "Suc (length ys) - 10 = Suc (length ys - 10)" using False by simp
  with assms False ne show ?thesis
    by (simp add: update_history_def Let_def history_max_size_def drop_Suc tl_drop)
qed

lemma window_feed:
  "temp_history c = drop (length ys - 10) ys \<Longrightarrow>
   temp_history (feed c xs) = drop (length (ys @ available xs) - 10) (ys @ available xs)"
proof (induction xs arbitrary: c ys rule: available.induct)
  case 1
  then show ?case by simp
next
  case (2 xs)
  then show ?case by simp
next
  case (3 t xs)
  from window_step [OF "3.prems", of t]
  have "temp_history (snd (get_fan_speed_for_temp c (Some t))) =
      drop (length (ys @ [t]) - 10) (ys @ [t])"
    by (simp add: step_Some_fields)
  from "3.IH" [OF this] show ?case by simp
qed

lemma mode_inv_step:
  assumes "aggressive_mode c \<longrightarrow> stable_counter c < 6"
  shows "aggressive_mode (update_mode c t) \<longrightarrow> stable_counter (update_mode c t) < 6"
  using assms by (auto simp: update_mode_def Let_def stable_required_def)

lemma mode_inv_feed:
  "(aggressive_mode c \<longrightarrow> stable_counter c < 6) \<Longrightarrow>
   (aggressive_mode (feed c xs) \<longrightarrow> stable_counter (feed c xs) < 6)"
proof (induction xs arbitrary: c)
  case Nil
  then show ?case by simp
next
  case (Cons x xs)
  have "aggressive_mode (snd (get_fan_speed_for_temp c x)) \<longrightarrow>
        stable_counter (snd (get_fan_speed_for_temp c x)) < 6"
  proof (cases x)
    case None
    with Cons.prems show ?thesis by simp
  next
    case (Some t)
    from mode_inv_step [of "update_history c t" t] Cons.prems show ?thesis
      unfolding Some step_Some_fields by simp
  qed
  from Cons.IH [OF this] show ?case by simp
qed

text \<open>
  C3. Let \<open>c\<close> be the state of a session started by \<open>temperature_control\<close> (aggressive,
  counter 0) after any samples \<open>xs\<close>, and let the next sample \<open>t\<close> be available. The
  history after the call, \<open>h'\<close>, is the last 10 (or fewer) available samples, \<open>t\<close>
  included. With fewer than 4 entries in \<open>h'\<close> the counter and the mode are untouched.
  With at least 4: on a stable sample (\<open>|t - target| < 3\<close> and \<open>max h' - min h' < 2\<close>) the
  counter is incremented and is not reset, a gentle controller stays gentle, and an
  aggressive one turns gentle exactly when the incremented counter is 6; on any other
  sample the counter is reset to 0, an aggressive controller stays aggressive, and a
  gentle one turns aggressive exactly when \<open>|t - target| > 5\<close> or \<open>max h' - min h' > 4\<close>.
\<close>

theorem mode_transitions:
  fixes xs :: "real option list" and t tg :: real and mn mx :: int
  defines "c \<equiv> feed (temperature_control tg mn mx) xs"
  defines "c' \<equiv> snd (get_fan_speed_for_temp c (Some t))"
  defines "h' \<equiv> temp_history c'"
  defines "variation \<equiv> Max (set h') - Min (set h')"
  defines "is_stable \<equiv> \<bar>t - tg\<bar> < 3 \<and> variation < 2"
  shows "h' = drop (length (available xs @ [t]) - 10) (available xs @ [t])
    \<and> length h' \<le> 10
    \<and> (length h' < 4 \<longrightarrow>
          stable_counter c' = stable_counter c \<and> aggressive_mode c' = aggressive_mode c)
    \<and> (4 \<le> length h' \<and> is_stable \<longrightarrow>
          stable_counter c' = stable_counter c + 1
          \<and> aggressive_mode c' = (aggressive_mode c \<and> stable_counter c' \<noteq> 6))
    \<and> (4 \<le> length h' \<and> \<not> is_stable \<longrightarrow>
          stable_counter c' = 0
          \<and> aggressive_mode c' = (aggressive_mode c \<or> \<bar>t - tg\<bar> > 5 \<or> variation > 4))"
proof -
  let ?c0 = "temperature_control tg mn mx"
  have tg: "target_temp c = tg"
    by (simp add: c_def temperature_control_def)
  have "temp_history ?c0 = drop (length ([]::real list) - 10) []"
    by (simp add: temperature_control_def)
  from window_feed [OF this, of xs]
  have hc: "temp_history c = drop (length (available xs) - 10) (available xs)"
    by (simp add: c_def)
  have h': "h' = temp_history (update_history c t)"
    by (simp add: h'_def c'_def step_Some_fields)
  have w: "h' = drop (length (available xs @ [t]) - 10) (available xs @ [t])"
    unfolding h' by (rule window_step [OF hc])
  have "aggressive_mode ?c0 \<longrightarrow> stable_counter ?c0 < 6"
    by (simp add: temperature_control_def)
  from mode_inv_feed [OF this, of xs] have inv: "aggressive_mode c \<longrightarrow> stable_counter c < 6"
    by (simp add: c_def)
  have len: "length h' \<le> 10" unfolding w by simp
  have a: "aggressive_mode c' = aggressive_mode (update_mode (update_history c t) t)"
    and s: "stable_counter c' = stable_counter (update_mode (update_history c t) t)"
    by (simp_all add: c'_def step_Some_fields)
  have few: "stable_counter c' = stable_counter c \<and> aggressive_mode c' = aggressive_mode c"
    if "length h' < 4"
    using that unfolding a s h' by (simp add: update_mode_def)
  have st: "stable_counter c' = stable_counter c + 1
          \<and> aggressive_mode c' = (aggressive_mode c \<and> stable_counter c' \<noteq> 6)"
    if "4 \<le> length h'" "is_stable"
    using that inv unfolding a s is_stable_def variation_def h'
    by (auto simp: update_mode_def Let_def tg stable_threshold_def stable_required_def)
  have un: "stable_counter c' = 0
          \<and> aggressive_mode c' = (aggressive_mode c \<or> \<bar>t - tg\<bar> > 5 \<or> variation > 4)"
    if "4 \<le> length h'" "\<not> is_stable"
    using that unfolding a s is_stable_def variation_def h'
    by (auto simp: update_mode_def Let_def tg stable_threshold_def stable_required_def)
  from w len few st un show ?thesis by blast
qed

text \<open>
  The three cases at a session with target 70 and bounds 30 and 100. The first reading
  (70) leaves a history of one entry: nothing changes. After eight readings of 70 the
  counter is 5 and the mode aggressive; the ninth reading of 70 is stable, the counter
  reaches 6 and the mode turns gentle. After nine readings of 70 the mode is gentle; a
  reading of 80 is not stable, the counter is reset and the mode turns aggressive.
\<close>

theorem mode_transitions_witness:
  fixes c0 c8 c9 c1' c9' c10' :: controller
  defines "c0 \<equiv> temperature_control 70 30 100"
  defines "c8 \<equiv> feed c0 (replicate 8 (Some 70))"
  defines "c9 \<equiv> feed c0 (replicate 9 (Some 70))"
  defines "c1' \<equiv> snd (get_fan_speed_for_temp (feed c0 []) (Some 70))"
  defines "c9' \<equiv> snd (get_fan_speed_for_temp c8 (Some 70))"
  defines "c10' \<equiv> snd (get_fan_speed_for_temp c9 (Some 80))"
  shows "length (temp_history c1') < 4
    \<and> stable_counter c1' = stable_counter (feed c0 []) \<and> aggressive_mode c1' = aggressive_mode (feed c0 [])
    \<and> 4 \<le> length (temp_history c9')
    \<and> \<bar>70 - 70 :: real\<bar> < 3 \<and> Max (set (temp_history c9')) - Min (set (temp_history c9')) < 2
    \<and> stable_counter c9' = stable_counter c8 + 1
    \<and> aggressive_mode c9' = (aggressive_mode c8 \<and> stable_counter c9' \<noteq> 6)
    \<and> aggressive_mode c8 \<and> stable_counter c9' = 6 \<and> \<not> aggressive_mode c9'
    \<and> 4 \<le> length (temp_history c10')
    \<and> \<not> (\<bar>80 - 70 :: real\<bar> < 3 \<and> Max (set (temp_history c10')) - Min (set (temp_history c10')) < 2)
    \<and> stable_counter c10' = 0
    \<and> aggressive_mode c10' =
        (aggressive_mode c9 \<or> \<bar>80 - 70 :: real\<bar> > 5
         \<or> Max (set (temp_history c10')) - Min (set (temp_history c10')) > 4)
    \<and> \<not> aggressive_mode c9 \<and> aggressive_mode c10'"
proof -
  note few = mode_transitions [where tg = 70 and mn = 30 and mx = 100 and xs = "[]" and t = 70,
      THEN conjunct2, THEN conjunct2, THEN conjunct1]
  note stb = mode_transitions [where tg = 70 and mn = 30 and mx = 100
      and xs = "replicate 8 (Some 70)" and t = 70,
      THEN conjunct2, THEN conjunct2, THEN conjunct2, THEN conjunct1]
  note uns = mode_transitions [where tg = 70 and mn = 30 and mx = 100
      and xs = "replicate 9 (Some 70)" and t = 80,
      THEN conjunct2, THEN conjunct2, THEN conjunct2, THEN conjunct2]
  have h1: "length (temp_history c1') < 4"
    unfolding c1'_def c0_def by code_simp
  have h2: "4 \<le> length (temp_history c9')" "\<bar>70 - 70 :: real\<bar> < 3"
    "Max (set (temp_history c9')) - Min (set (temp_history c9')) < 2"
    "aggressive_mode c8" "stable_counter c9' = 6" "\<not> aggressive_mode c9'"
    unfolding c9'_def c8_def c0_def by code_simp+
  have h3: "4 \<le> length (temp_history c10')"
    "\<not> (\<bar>80 - 70 :: real\<bar> < 3 \<and> Max (set (temp_history c10')) - Min (set (temp_history c10')) < 2)"
    "\<not> aggressive_mode c9" "aggressive_mode c10'"
    unfolding c10'_def c9_def c0_def by code_simp+
  from few h1
  have r1: "stable_counter c1' = stable_counter (feed c0 [])"
    "aggressive_mode c1' = aggressive_mode (feed c0 [])"
    unfolding c1'_def c0_def by blast+
  from stb h2(1-3)
  have r2: "stable_counter c9' = stable_counter c8 + 1"
    "aggressive_mode c9' = (aggressive_mode c8 \<and> stable_counter c9' \<noteq> 6)"
    unfolding c9'_def c8_def c0_def by blast+
  from uns h3(1,2)
  have r3: "stable_counter c10' = 0"
    "aggressive_mode c10' =
        (aggressive_mode c9 \<or> \<bar>80 - 70 :: real\<bar> > 5
         \<or> Max (set (temp_history c10')) - Min (set (temp_history c10')) > 4)"
    unfolding c10'_def c9_def c0_def by blast+
  show ?thesis by (intro conjI h1 r1 h2 r2 h3 r3)
qed

section \<open>A constant reading of 80 against a target of 70\<close>

lemma hot_history:
  assumes "3 \<le> k" and "k \<le> 10"
  shows "update_history
     \<lparr>target_temp = 70, min_fan = 30, max_fan = 100, last_fan_speed = 100,
      temp_history = replicate k 80, aggressive_mode = True, stable_counter = 0\<rparr> 80
   = \<lparr>target_temp = 70, min_fan = 30, max_fan = 100, last_fan_speed = 100,
      temp_history = replicate (min (Suc k) 10) 80, aggressive_mode = True, stable_counter = 0\<rparr>"
proof -
  have a: "replicate k (80::real) @ [80] = 80 # replicate k 80"
    by (simp add: replicate_append_same)
  have len: "length (80 # replicate k (80::real)) = Suc k" by simp
  show ?thesis
  proof (cases "k < 10")
    case True
    then have m: "min (Suc k) 10 = Suc k" and lt: "(10 < Suc k) = False" by simp_all
    show ?thesis
      unfolding update_history_def Let_def history_max_size_def select_convs a len m lt
      by simp
  next
    case False
    with assms have m: "min (Suc k) 10 = k" and lt: "(10 < Suc k) = True" by simp_all
    show ?thesis
      unfolding update_history_def Let_def history_max_size_def select_convs a len m lt
      by simp
  qed
qed

lemma hot_mode:
  assumes "4 \<le> m"
  shows "update_mode
     \<lparr>target_temp = 70, min_fan = 30, max_fan = 100, last_fan_speed = 100,
      temp_history = replicate m 80, aggressive_mode = True, stable_counter = 0\<rparr> 80
   = \<lparr>target_temp = 70, min_fan = 30, max_fan = 100, last_fan_speed = 100,
      temp_history = replicate m 80, aggressive_mode = True, stable_counter = 0\<rparr>"
  using assms unfolding update_mode_def Let_def by simp

lemma hot_new_fan:
  "new_fan
     \<lparr>target_temp = 70, min_fan = 30, max_fan = 100, last_fan_speed = 100,
      temp_history = replicate m 80, aggressive_mode = True, stable_counter = 0\<rparr> 80 = 100"
  unfolding new_fan_def Let_def over_target_gain_def min_adjustment_def
  by (simp add: py_int_def)

lemma hot_step:
  assumes "3 \<le> k" and "k \<le> 10"
  shows "get_fan_speed_for_temp
     \<lparr>target_temp = 70, min_fan = 30, max_fan = 100, last_fan_speed = 100,
      temp_history = replicate k 80, aggressive_mode = True, stable_counter = 0\<rparr> (Some 80)
   = (100, \<lparr>target_temp = 70, min_fan = 30, max_fan = 100, last_fan_speed = 100,
      temp_history = replicate (min (Suc k) 10) 80, aggressive_mode = True, stable_counter = 0\<rparr>)"
proof -
  have m: "4 \<le> min (Suc k) 10" using assms by simp
  show ?thesis
    unfolding get_fan_speed_for_temp_def Let_def option.case
      hot_history [OF assms] hot_mode [OF m] hot_new_fan
    by simp
qed

lemma hot_outputs:
  "3 \<le> k \<Longrightarrow> k \<le> 10 \<Longrightarrow>
   outputs \<lparr>target_temp = 70, min_fan = 30, max_fan = 100, last_fan_speed = 100,
      temp_history = replicate k 80, aggressive_mode = True, stable_counter = 0\<rparr>
     (replicate n (Some 80)) = replicate n 100"
proof (induction n arbitrary: k)
  case 0
  then show ?case by simp
next
  case (Suc n)
  have "3 \<le> min (Suc k) 10" "min (Suc k) 10 \<le> 10" using Suc.prems by simp_all
  from Suc.IH [OF this] show ?case
    by (simp add: hot_step [OF Suc.prems])
qed

lemma warm_up:
  "outputs (temperature_control 70 30 100) (replicate 0 (Some 80)) = []"
  "outputs (temperature_control 70 30 100) (replicate 1 (Some 80)) = [55]"
  "outputs (temperature_control 70 30 100) (replicate 2 (Some 80)) = [55, 80]"
  "outputs (temperature_control 70 30 100) (replicate 3 (Some 80)) = [55, 80, 100]"
  "feed (temperature_control 70 30 100) (replicate 3 (Some 80)) =
     \<lparr>target_temp = 70, min_fan = 30, max_fan = 100, last_fan_speed = 100,
      temp_history = replicate 3 80, aggressive_mode = True, stable_counter = 0\<rparr>"
  by code_simp+

lemma const80_closed_form:
  "outputs (temperature_control 70 30 100) (replicate n (Some 80)) =
     take n [55, 80, 100] @ replicate (n - 3) 100"
proof (cases "n \<le> 3")
  case True
  then consider "n = 0" | "n = 1" | "n = 2" | "n = 3" by linarith
  then show ?thesis
    by cases (simp_all only: warm_up, simp_all)
next
  case False
  then have "n = 3 + (n - 3)" by simp
  then have "replicate n (Some (80::real)) = replicate 3 (Some 80) @ replicate (n - 3) (Some 80)"
    by (metis replicate_add)
  then have "outputs (temperature_control 70 30 100) (replicate n (Some 80)) =
     [55, 80, 100] @ replicate (n - 3) 100"
    by (simp only: outputs_append warm_up hot_outputs [of 3, simplified])
  with False show ?thesis by simp
qed

text \<open>
  C8. A controller constructed with target 70 and bounds 30 and 100 is fed the sample
  80.0 \<open>n\<close> times, for any \<open>n\<close>. The speeds returned are 55, 80, 100, 100, ...: the
  sequence is non-decreasing, it is constant (100) from the third output on, and no
  output exceeds \<open>max_fan = 100\<close>.
\<close>

theorem constant_80_outputs:
  "outputs (temperature_control 70 30 100) (replicate n (Some 80)) =
     take n [55, 80, 100] @ replicate (n - 3) 100
   \<and> sorted (outputs (temperature_control 70 30 100) (replicate n (Some 80)))
   \<and> drop 2 (outputs (temperature_control 70 30 100) (replicate n (Some 80))) =
       replicate (n - 2) 100
   \<and> list_all (\<lambda>r. r \<le> max_fan (temperature_control 70 30 100))
       (outputs (temperature_control 70 30 100) (replicate n (Some 80)))
   \<and> max_fan (temperature_control 70 30 100) = 100"
proof -
  have mx: "max_fan (temperature_control 70 30 100) = 100"
    by (simp add: temperature_control_def)
  consider "n = 0" | "n = 1" | "n = 2" | "3 \<le> n" by linarith
  then have "sorted (take n [55, 80, 100::int] @ replicate (n - 3) 100)
    \<and> drop 2 (take n [55, 80, 100::int] @ replicate (n - 3) 100) = replicate (n - 2) 100
    \<and> list_all (\<lambda>r. r \<le> 100) (take n [55, 80, 100::int] @ replicate (n - 3) 100)"
  proof cases
    case 4
    then have "replicate (n - 2) (100::int) = 100 # replicate (n - 3) 100"
      by (metis Suc_diff_le diff_Suc_eq_diff_pred eval_nat_numeral(3) numeral_2_eq_2
          replicate_Suc Suc_diff_Suc Suc_le_lessD diff_Suc_Suc numeral_3_eq_3)
    with 4 show ?thesis by (simp add: sorted_append list_all_iff)
  qed (simp_all add: list_all_iff)
  then show ?thesis
    unfolding const80_closed_form mx by simp
qed

section \<open>The fan curve on an unavailable temperature\<close>

text \<open>
  C10. \<open>get_fan_speed\<close> called with \<open>None\<close> returns \<open>None\<close>: no exception is raised and no
  fallback speed is returned. The method assigns to no attribute, so the curve is as before.
\<close>

theorem get_fan_speed_None:
  "get_fan_speed self None = Inr None"
  by (simp add: get_fan_speed_def)

section \<open>The fan curve: interpolation\<close>

lemma sort_default_points: "sort_key fst default_points = default_points"
  by (rule sort_key_id_if_sorted) (simp add: default_points_def)


lemma segment_bounds:
  fixes t1 t2 f1 f2 T :: real
  assumes "t1 < T" and "T \<le> t2" and "f1 \<le> f2"
  shows "f1 \<le> f1 + (T - t1) / (t2 - t1) * (f2 - f1)"
    and "f1 + (T - t1) / (t2 - t1) * (f2 - f1) \<le> f2"
proof -
  have r0: "0 \<le> (T - t1) / (t2 - t1)" using assms by simp
  have r1: "(T - t1) / (t2 - t1) \<le> 1" using assms by simp
  have d: "0 \<le> f2 - f1" using assms by simp
  have "0 \<le> (T - t1) / (t2 - t1) * (f2 - f1)"
    using r0 d by (rule mult_nonneg_nonneg)
  then show "f1 \<le> f1 + (T - t1) / (t2 - t1) * (f2 - f1)"
    by linarith
  have "(T - t1) / (t2 - t1) * (f2 - f1) \<le> 1 * (f2 - f1)"
    using r1 d by (rule mult_right_mono)
  then have "(T - t1) / (t2 - t1) * (f2 - f1) \<le> f2 - f1"
    by (simp only: mult_1)
  then show "f1 + (T - t1) / (t2 - t1) * (f2 - f1) \<le> f2" by linarith
qed

lemma segment_mono:
  fixes t1 t2 f1 f2 T T' :: real
  assumes "t1 < T" and "T \<le> T'" and "T' \<le> t2" and "f1 \<le> f2"
  shows "f1 + (T - t1) / (t2 - t1) * (f2 - f1) \<le> f1 + (T' - t1) / (t2 - t1) * (f2 - f1)"
proof -
  have "(T - t1) / (t2 - t1) \<le> (T' - t1) / (t2 - t1)"
    using assms by (intro divide_right_mono) simp_all
  then have "(T - t1) / (t2 - t1) * (f2 - f1) \<le> (T' - t1) / (t2 - t1) * (f2 - f1)"
    using assms by (intro mult_right_mono) simp_all
  then show ?thesis by linarith
qed

lemma interpolate_bounds:
  assumes "ps \<noteq> []" and "sorted (map snd ps)" and "fst (hd ps) < T" and "T < fst (last ps)"
  shows "\<exists>r. interpolate ps T = Inr r \<and> snd (hd ps) \<le> r \<and> r \<le> snd (last ps)"
  using assms
proof (induction ps T rule: interpolate.induct)
  case (1 t1 f1 t2 f2 ps T)
  from "1.prems" have f12: "f1 \<le> f2" and f2l: "f2 \<le> snd (last ((t2, f2) # ps))"
    and srt: "sorted (map snd ((t2, f2) # ps))"
    by (auto simp: last_in_set dest!: bspec [where x = "last ps"])
  show ?case
  proof (cases "T \<le> t2")
    case True
    with "1.prems" segment_bounds [of t1 T t2 f1 f2] f12 f2l show ?thesis by auto
  next
    case False
    then have lt: "t2 < T" by simp
    with "1.prems" have ne: "ps \<noteq> []" by auto
    have nb: "\<not> (t1 \<le> T \<and> T \<le> t2)" using False by simp
    from "1.prems" ne have "T < fst (last ((t2, f2) # ps))" by simp
    with "1.IH" [OF nb _ srt] lt obtain r where
      "interpolate ((t2, f2) # ps) T = Inr r" "f2 \<le> r" "r \<le> snd (last ((t2, f2) # ps))"
      by auto
    with nb f12 show ?thesis by auto
  qed
next
  case (2 p T)
  then show ?case by simp
next
  case (3 T)
  then show ?case by simp
qed

lemma interpolate_mono:
  assumes "ps \<noteq> []" and "sorted (map snd ps)" and "fst (hd ps) < T" and "T \<le> T'"
    and "T' < fst (last ps)"
  shows "\<exists>r r'. interpolate ps T = Inr r \<and> interpolate ps T' = Inr r' \<and> r \<le> r'"
  using assms
proof (induction ps T' arbitrary: T rule: interpolate.induct)
  case (1 t1 f1 t2 f2 ps T')
  from "1.prems" have f12: "f1 \<le> f2" and srt: "sorted (map snd ((t2, f2) # ps))"
    by auto
  show ?case
  proof (cases "T' \<le> t2")
    case True
    with "1.prems" segment_mono [of t1 T T' t2 f1 f2] f12 show ?thesis by auto
  next
    case False
    then have lt': "t2 < T'" by simp
    with "1.prems" have ne: "ps \<noteq> []" by auto
    have nb': "\<not> (t1 \<le> T' \<and> T' \<le> t2)" using False by simp
    from "1.prems" ne have last': "T' < fst (last ((t2, f2) # ps))" by simp
    show ?thesis
    proof (cases "T \<le> t2")
      case True
      from interpolate_bounds [of "(t2, f2) # ps" T'] srt lt' last'
      obtain r' where "interpolate ((t2, f2) # ps) T' = Inr r'" "f2 \<le> r'" by auto
      with True "1.prems" segment_bounds(2) [of t1 T t2 f1 f2] f12 nb' show ?thesis by auto
    next
      case False
      then have "t2 < T" by simp
      with "1.IH" [OF nb' _ srt, of T] "1.prems" last' obtain r r' where
        "interpolate ((t2, f2) # ps) T = Inr r" "interpolate ((t2, f2) # ps) T' = Inr r'" "r \<le> r'"
        by auto
      with False nb' show ?thesis by auto
    qed
  qed
next
  case (2 p T')
  then show ?case by simp
next
  case (3 T')
  then show ?case by simp
qed




lemma get_fan_speed_low:
  assumes "points self \<noteq> []" and "T \<le> fst (hd (points self))"
  shows "get_fan_speed self (Some T) = Inr (Some (snd (hd (points self))))"
  using assms by (cases "points self") (simp_all add: get_fan_speed_def)

lemma get_fan_speed_high:
  assumes "points self \<noteq> []" and "fst (hd (points self)) < T" and "fst (last (points self)) \<le> T"
  shows "get_fan_speed self (Some T) = Inr (Some (snd (last (points self))))"
  using assms by (cases "points self") (simp_all add: get_fan_speed_def)

lemma get_fan_speed_mid:
  assumes "points self \<noteq> []" and "fst (hd (points self)) < T" and "T < fst (last (points self))"
    and "interpolate (points self) T = Inr r"
  shows "get_fan_speed self (Some T) = Inr (Some r)"
  using assms by (cases "points self") (simp_all add: get_fan_speed_def)



section \<open>The fan curve: monotonicity\<close>

text \<open>
  C6, as the specification words it, fails: sorting by temperature says nothing about the
  fan speeds. The curve \<open>[(30, 100), (50, 10)]\<close> is sorted by temperature, and its speed
  falls from 100 at 30 degrees to 55 at 40 and to 10 at 50.
\<close>

theorem get_fan_speed_not_mono:
  "sorted (map fst (points (FanCurve_init ''Falling'' (Some [(30, 100), (50, 10)]))))
   \<and> get_fan_speed (FanCurve_init ''Falling'' (Some [(30, 100), (50, 10)])) (Some 30) = Inr (Some 100)
   \<and> get_fan_speed (FanCurve_init ''Falling'' (Some [(30, 100), (50, 10)])) (Some 40) = Inr (Some 55)
   \<and> get_fan_speed (FanCurve_init ''Falling'' (Some [(30, 100), (50, 10)])) (Some 50) = Inr (Some 10)
   \<and> (30::real) \<le> 40 \<and> (40::real) \<le> 50 \<and> \<not> (100::real) \<le> 55 \<and> \<not> (55::real) \<le> 10"
  by code_simp

text \<open>
  C6, amended. For every curve with at least one point, sorted ascending by temperature,
  whose fan speeds are non-decreasing along the points, \<open>get_fan_speed\<close> is monotonic
  non-decreasing in the temperature: for all \<open>T \<le> T'\<close> both calls return a speed, and the
  speed at \<open>T\<close> is at most the speed at \<open>T'\<close>.
\<close>

theorem get_fan_speed_mono:
  assumes ne: "points self \<noteq> []" and "sorted (map fst (points self))"
    and fs: "sorted (map snd (points self))" and le: "T \<le> T'"
  shows "\<exists>r r'. get_fan_speed self (Some T) = Inr (Some r)
           \<and> get_fan_speed self (Some T') = Inr (Some r') \<and> r \<le> r'"
proof -
  let ?ps = "points self"
  have hl: "snd (hd ?ps) \<le> snd (last ?ps)"
    using sorted_nth_mono [OF fs, of 0 "length ?ps - 1"] ne
    by (simp add: hd_conv_nth last_conv_nth)
  show ?thesis
  proof (cases "T \<le> fst (hd ?ps)")
    case True
    note lowT = get_fan_speed_low [OF ne True]
    show ?thesis
    proof (cases "T' \<le> fst (hd ?ps)")
      case True
      with lowT get_fan_speed_low [OF ne True] show ?thesis by simp
    next
      case False
      then have h': "fst (hd ?ps) < T'" by simp
      show ?thesis
      proof (cases "fst (last ?ps) \<le> T'")
        case True
        with lowT get_fan_speed_high [OF ne h' True] hl show ?thesis by simp
      next
        case False
        then have l': "T' < fst (last ?ps)" by simp
        from interpolate_bounds [OF ne fs h' l'] obtain r' where
          "interpolate ?ps T' = Inr r'" "snd (hd ?ps) \<le> r'" by blast
        with lowT get_fan_speed_mid [OF ne h' l'] show ?thesis by simp
      qed
    qed
  next
    case False
    then have h: "fst (hd ?ps) < T" by simp
    with le have h': "fst (hd ?ps) < T'" by simp
    show ?thesis
    proof (cases "fst (last ?ps) \<le> T")
      case True
      with le have "fst (last ?ps) \<le> T'" by simp
      with get_fan_speed_high [OF ne h True] get_fan_speed_high [OF ne h'] show ?thesis by simp
    next
      case False
      then have l: "T < fst (last ?ps)" by simp
      show ?thesis
      proof (cases "fst (last ?ps) \<le> T'")
        case True
        from interpolate_bounds [OF ne fs h l] obtain r where
          "interpolate ?ps T = Inr r" "r \<le> snd (last ?ps)" by blast
        with get_fan_speed_mid [OF ne h l] get_fan_speed_high [OF ne h' True] show ?thesis by simp
      next
        case False
        then have l': "T' < fst (last ?ps)" by simp
        from interpolate_mono [OF ne fs h le l'] obtain r r' where
          "interpolate ?ps T = Inr r" "interpolate ?ps T' = Inr r'" "r \<le> r'" by blast
        with get_fan_speed_mid [OF ne h l] get_fan_speed_mid [OF ne h' l'] show ?thesis by simp
      qed
    qed
  qed
qed

text \<open>
  The default curve has non-decreasing fan speeds; the theorem applies to it at 45 and 60.
\<close>

theorem get_fan_speed_mono_witness:
  "points (FanCurve_init ''Default'' None) \<noteq> []
   \<and> sorted (map fst (points (FanCurve_init ''Default'' None)))
   \<and> sorted (map snd (points (FanCurve_init ''Default'' None)))
   \<and> (45::real) \<le> 60
   \<and> (\<exists>r r'. get_fan_speed (FanCurve_init ''Default'' None) (Some 45) = Inr (Some r)
         \<and> get_fan_speed (FanCurve_init ''Default'' None) (Some 60) = Inr (Some r') \<and> r \<le> r')"
proof -
  let ?c = "FanCurve_init ''Default'' None"
  have pts: "points ?c = [(30, 30), (50, 40), (70, 60), (80, 80), (90, 100)]"
    by (simp add: FanCurve_init_def sort_default_points) (simp add: default_points_def)
  have ne: "points ?c \<noteq> []" and srt: "sorted (map fst (points ?c))"
    and fs: "sorted (map snd (points ?c))"
    unfolding pts by simp_all
  have le: "(45::real) \<le> 60" by simp
  show ?thesis by (intro conjI ne srt fs le get_fan_speed_mono [OF ne srt fs le])
qed

section \<open>Construction\<close>






end
